theory Spec2Isabelle
  imports Complex_Main "HOL-Library.AList"
begin

section \<open>Shared vocabulary\<close>

text \<open>
  A blocking call is observed until it returns or until the observation ends: \<open>Returned v\<close>
  is a call that came back with \<open>v\<close>, \<open>Blocked\<close> is a call that is still suspended (inside
  \<^verbatim>\<open>Event.wait\<close>, or still going round its polling loop) when the observation ends.
\<close>

datatype 'a outcome = Returned 'a | Blocked

text \<open>
  The polling loops of \<^verbatim>\<open>ThreadSemaphore._acquire\<close> and
  \<^verbatim>\<open>ThreadManager.wait_for_thread\<close> read the clock and the shared state once per
  iteration and sleep in between. One iteration is a tick: the reading of
  \<^verbatim>\<open>time.time()\<close> in that iteration and what the other threads do around it.
\<close>

type_synonym 'e tick = "real \<times> 'e list"

text \<open>
  The guard \<^verbatim>\<open>timeout and (time.time() - start_time) > timeout\<close>: Python's \<^verbatim>\<open>and\<close>
  tests the truth value of \<^verbatim>\<open>timeout\<close> first, and both \<^verbatim>\<open>None\<close> and \<^verbatim>\<open>0\<close> are false.
\<close>

fun expired :: "real option \<Rightarrow> real \<Rightarrow> real \<Rightarrow> bool" where
  "expired None start_time now = False"
| "expired (Some timeout) start_time now = (timeout \<noteq> 0 \<and> now - start_time > timeout)"

text \<open>
  \<^verbatim>\<open>threading.Event\<close> of the standard library is a flag; \<^verbatim>\<open>wait(timeout)\<close> returns
  \<^verbatim>\<open>True\<close> at once when the flag is set. On an unset flag it suspends the caller, who
  resumes with \<^verbatim>\<open>True\<close> when the flag is set and with \<^verbatim>\<open>False\<close> when the timeout
  has elapsed; a timeout that is not positive gives \<^verbatim>\<open>False\<close> without suspending. The
  caller is observed for \<open>waited\<close> seconds from the call, during which nobody sets the flag.
\<close>

fun Event_wait :: "bool \<Rightarrow> real option \<Rightarrow> real \<Rightarrow> bool outcome" where
  "Event_wait flag None waited = (if flag then Returned True else Blocked)"
| "Event_wait flag (Some timeout) waited =
     (if flag then Returned True
      else if timeout \<le> max 0 waited then Returned False else Blocked)"

section \<open>sync.py: ThreadBarrier\<close>

record ThreadBarrier =
  b_parties :: int
  b_count :: int
  b_event :: bool

definition ThreadBarrier_init :: "int \<Rightarrow> ThreadBarrier" where
  "ThreadBarrier_init parties = \<lparr>b_parties = parties, b_count = parties, b_event = False\<rparr>"

text \<open>
  \<^verbatim>\<open>ThreadBarrier.wait\<close>: the block under the lock decrements the count; the arrival that
  brings it to zero sets the event, resets the count and returns \<^verbatim>\<open>True\<close>. Every other
  arrival leaves the lock and waits on the event. Nothing in the class clears the event.
\<close>

definition ThreadBarrier_wait :: "real option \<Rightarrow> real \<Rightarrow> ThreadBarrier
                                  \<Rightarrow> bool outcome \<times> ThreadBarrier" where
  "ThreadBarrier_wait timeout waited b =
     (let b1 = b\<lparr>b_count := b_count b - 1\<rparr> in
      if b_count b1 = 0
      then (Returned True, b1\<lparr>b_event := True, b_count := b_parties b1\<rparr>)
      else (Event_wait (b_event b1) timeout waited, b1))"

text \<open>
  A sequence of arrivals, each with its own timeout and observation length, in the order
  they take the lock.
\<close>

fun ThreadBarrier_waits :: "(real option \<times> real) list \<Rightarrow> ThreadBarrier
                            \<Rightarrow> bool outcome list \<times> ThreadBarrier" where
  "ThreadBarrier_waits [] b = ([], b)"
| "ThreadBarrier_waits ((t, w) # ts) b =
     (case ThreadBarrier_wait t w b of (r, b1) \<Rightarrow>
        (case ThreadBarrier_waits ts b1 of (rs, b2) \<Rightarrow> (r # rs, b2)))"

section \<open>sync.py: ThreadSemaphore\<close>

record ThreadSemaphore =
  s_value :: int
  s_event :: bool

definition ThreadSemaphore_init :: "int \<Rightarrow> ThreadSemaphore" where
  "ThreadSemaphore_init v = \<lparr>s_value = v, s_event = False\<rparr>"

text \<open>
  The block \<^verbatim>\<open>with self._lock: if self._value > 0: self._value -= 1; return True\<close>, which
  \<^verbatim>\<open>_acquire\<close> runs once before its loop and once in every iteration.
\<close>

definition take_permit :: "ThreadSemaphore \<Rightarrow> bool \<times> ThreadSemaphore" where
  "take_permit s = (if s_value s > 0 then (True, s\<lparr>s_value := s_value s - 1\<rparr>) else (False, s))"

definition release :: "ThreadSemaphore \<Rightarrow> ThreadSemaphore" where
  "release s = s\<lparr>s_value := s_value s + 1, s_event := True\<rparr>"

text \<open>What another thread does to the semaphore between two iterations of a waiting caller.\<close>

datatype sem_op = OtherTake | OtherRelease

fun sem_apply :: "sem_op \<Rightarrow> ThreadSemaphore \<Rightarrow> ThreadSemaphore" where
  "sem_apply OtherTake s = snd (take_permit s)"
| "sem_apply OtherRelease s = release s"

fun acquire_loop :: "real option \<Rightarrow> real \<Rightarrow> sem_op tick list \<Rightarrow> ThreadSemaphore
                     \<Rightarrow> bool outcome \<times> ThreadSemaphore" where
  "acquire_loop timeout start_time [] s = (Blocked, s)"
| "acquire_loop timeout start_time ((now, others) # ticks) s =
     (let s1 = fold sem_apply others s in
      if expired timeout start_time now then (Returned False, s1)
      else (case take_permit s1 of
              (True, s2) \<Rightarrow> (Returned True, s2)
            | (False, s2) \<Rightarrow> acquire_loop timeout start_time ticks s2))"

text \<open>\<^verbatim>\<open>ThreadSemaphore._acquire\<close>: the attempt before the loop, then the loop.\<close>

definition acquire_internal :: "real option \<Rightarrow> real \<Rightarrow> sem_op tick list \<Rightarrow> ThreadSemaphore
                     \<Rightarrow> bool outcome \<times> ThreadSemaphore" where
  "acquire_internal timeout start_time ticks s =
     (case take_permit s of
        (True, s1) \<Rightarrow> (Returned True, s1)
      | (False, s1) \<Rightarrow> acquire_loop timeout start_time ticks s1)"

text \<open>
  Python exceptions. \<^verbatim>\<open>SystemExit\<close> and \<^verbatim>\<open>KeyboardInterrupt\<close> derive from
  \<^verbatim>\<open>BaseException\<close> and not from \<^verbatim>\<open>Exception\<close>, so a clause \<^verbatim>\<open>except Exception\<close> lets
  them pass.
\<close>

datatype exn =
    Exception string
  | TimeoutError string
  | ValueError string
  | RuntimeError string
  | TypeError string
  | KeyError int
  | SystemExit int
  | KeyboardInterrupt

fun is_Exception :: "exn \<Rightarrow> bool" where
  "is_Exception (SystemExit code) = False"
| "is_Exception KeyboardInterrupt = False"
| "is_Exception e = True"

text \<open>\<^verbatim>\<open>str\<close> of an integer, for the messages that carry a thread id.\<close>

fun str_nat :: "nat \<Rightarrow> string" where
  "str_nat n = (if n < 10 then [''0123456789'' ! n]
                else str_nat (n div 10) @ [''0123456789'' ! (n mod 10)])"

declare str_nat.simps [simp del]

definition str_int :: "int \<Rightarrow> string" where
  "str_int i = (if i < 0 then CHR ''-'' # str_nat (nat (- i)) else str_nat (nat i))"

text \<open>
  Entering the context manager \<^verbatim>\<open>ThreadSemaphore.acquire\<close>: a \<^verbatim>\<open>False\<close> from
  \<^verbatim>\<open>_acquire\<close> becomes \<^verbatim>\<open>TimeoutError\<close>.
\<close>

definition acquire :: "real option \<Rightarrow> real \<Rightarrow> sem_op tick list \<Rightarrow> ThreadSemaphore
                     \<Rightarrow> (exn + unit) outcome \<times> ThreadSemaphore" where
  "acquire timeout start_time ticks s =
     (case acquire_internal timeout start_time ticks s of
        (Returned True, s1) \<Rightarrow> (Returned (Inr ()), s1)
      | (Returned False, s1) \<Rightarrow> (Returned (Inl (TimeoutError ''Failed to acquire semaphore'')), s1)
      | (Blocked, s1) \<Rightarrow> (Blocked, s1))"

text \<open>A history of the semaphore: whole \<^verbatim>\<open>_acquire\<close> calls and releases, one after another.\<close>

datatype sem_call = Acquire "real option" real "sem_op tick list" | Release

fun sem_call_apply :: "sem_call \<Rightarrow> ThreadSemaphore \<Rightarrow> ThreadSemaphore" where
  "sem_call_apply (Acquire timeout start_time ticks) s = snd (acquire_internal timeout start_time ticks s)"
| "sem_call_apply Release s = release s"


text \<open>No other thread releases during these ticks.\<close>

definition quiet :: "sem_op tick list \<Rightarrow> bool" where
  "quiet ticks = list_all (\<lambda>tk. OtherRelease \<notin> set (snd tk)) ticks"

section \<open>sync.py: ThreadCountDownLatch\<close>

record ThreadCountDownLatch =
  l_count :: int
  l_event :: bool

definition ThreadCountDownLatch_init :: "int \<Rightarrow> ThreadCountDownLatch" where
  "ThreadCountDownLatch_init n = \<lparr>l_count = n, l_event = False\<rparr>"

definition count_down :: "ThreadCountDownLatch \<Rightarrow> ThreadCountDownLatch" where
  "count_down l =
     (if l_count l > 0
      then (let l1 = l\<lparr>l_count := l_count l - 1\<rparr> in
            if l_count l1 = 0 then l1\<lparr>l_event := True\<rparr> else l1)
      else l)"

definition wait_for_zero :: "real option \<Rightarrow> real \<Rightarrow> ThreadCountDownLatch \<Rightarrow> bool outcome" where
  "wait_for_zero timeout waited l = Event_wait (l_event l) timeout waited"

section \<open>manager.py: ThreadState, ThreadInfo\<close>

datatype ThreadState = IDLE | RUNNING | TERMINATED | ERROR

text \<open>
  Python values as far as the registry is concerned: \<^verbatim>\<open>None\<close> is a value like any other,
  and it is the default of the field \<^verbatim>\<open>result\<close>. A callable is what it does when called
  with its positional and keyword arguments: it returns a value or raises an exception,
  which may or may not be an instance of \<^verbatim>\<open>Exception\<close>.
\<close>

datatype pyval = PyNone | PyBool bool | PyInt int | PyStr string

type_synonym callable = "pyval list \<Rightarrow> (string \<times> pyval) list \<Rightarrow> exn + pyval"

record ThreadInfo =
  thread_id :: int
  state :: ThreadState
  task :: "callable option"
  args :: "pyval list"
  kwargs :: "(string \<times> pyval) list"
  result :: pyval
  error :: "exn option"

text \<open>\<^verbatim>\<open>thread_info.task(*thread_info.args, **thread_info.kwargs)\<close>; calling \<^verbatim>\<open>None\<close> raises.\<close>

definition call_task :: "ThreadInfo \<Rightarrow> exn + pyval" where
  "call_task info =
     (case task info of
        None \<Rightarrow> Inl (TypeError ''NoneType object is not callable'')
      | Some f \<Rightarrow> f (args info) (kwargs info))"

section \<open>manager.py: ThreadManager\<close>

text \<open>
  The manager's fields. \<^verbatim>\<open>_threads\<close> is the dictionary from thread id to record, kept in
  insertion order. Of the \<^verbatim>\<open>ThreadPoolExecutor\<close> of the standard library the model keeps
  what the manager relies on: whether it has been shut down, and for every work item it
  accepted how far that item has got. A work item is queued, then a worker has started
  \<^verbatim>\<open>_execute_task\<close> on it, then the call has come back and the future holds its value or
  exception, then the future's done-callback has run. The callback is taken to run in
  the worker, after \<^verbatim>\<open>submit_task\<close> has registered it. A worker thread that an exception
  escapes from ends; \<^verbatim>\<open>workers_lost\<close> counts them. The model does not bound the number of
  workers.
\<close>

datatype future = Queued | Started | Done "exn + pyval" | Notified

record ThreadManager =
  threads :: "(int \<times> ThreadInfo) list"
  running :: bool
  executor_shutdown :: bool
  futures :: "(int \<times> future) list"
  workers_lost :: nat

definition ThreadManager_init :: ThreadManager where
  "ThreadManager_init = \<lparr>threads = [], running = True, executor_shutdown = False, futures = [],
                          workers_lost = 0\<rparr>"

text \<open>
  \<^verbatim>\<open>submit_task\<close>: under the lock, the next id is the size of the dictionary and the new
  record is stored under it. Then the work item goes to the executor, whose \<^verbatim>\<open>submit\<close>
  raises \<^verbatim>\<open>RuntimeError\<close> once the executor has been shut down. The method does not read
  \<^verbatim>\<open>_running\<close>.
\<close>

definition submit_task :: "callable \<Rightarrow> pyval list \<Rightarrow> (string \<times> pyval) list \<Rightarrow> ThreadManager
                           \<Rightarrow> (exn + int) \<times> ThreadManager" where
  "submit_task tsk a kw p =
     (let tid = int (length (threads p));
          thread_info = \<lparr>thread_id = tid, state = IDLE, task = Some tsk, args = a,
                         kwargs = kw, result = PyNone, error = None\<rparr>;
          p1 = p\<lparr>threads := AList.update tid thread_info (threads p)\<rparr>
      in if executor_shutdown p1
         then (Inl (RuntimeError ''cannot schedule new futures after shutdown''), p1)
         else (Inr tid, p1\<lparr>futures := AList.update tid Queued (futures p1)\<rparr>))"

text \<open>
  \<^verbatim>\<open>_execute_task\<close> in its two parts: looking the record up and marking it
  \<^verbatim>\<open>RUNNING\<close>, then the \<^verbatim>\<open>try\<close> statement that calls the task. Other threads can observe
  the registry between the two. The handler is \<^verbatim>\<open>except Exception\<close>: it records and
  re-raises an instance of \<^verbatim>\<open>Exception\<close>, and any other exception leaves the
  method with the record as it is.
\<close>

definition execute_task_enter :: "int \<Rightarrow> ThreadManager \<Rightarrow> exn + ThreadManager" where
  "execute_task_enter tid p =
     (case map_of (threads p) tid of
        None \<Rightarrow> Inl (KeyError tid)
      | Some info \<Rightarrow> Inr (p\<lparr>threads := AList.update tid (info\<lparr>state := RUNNING\<rparr>) (threads p)\<rparr>))"

definition execute_task_call :: "int \<Rightarrow> ThreadManager \<Rightarrow> (exn + pyval) \<times> ThreadManager" where
  "execute_task_call tid p =
     (case map_of (threads p) tid of
        None \<Rightarrow> (Inl (KeyError tid), p)
      | Some info \<Rightarrow>
          (case call_task info of
             Inr v \<Rightarrow> (Inr v, p)
           | Inl e \<Rightarrow>
               if is_Exception e
               then (Inl e, p\<lparr>threads := AList.update tid (info\<lparr>error := Some e, state := ERROR\<rparr>)
                                            (threads p)\<rparr>)
               else (Inl e, p)))"

definition execute_task :: "int \<Rightarrow> ThreadManager \<Rightarrow> (exn + pyval) \<times> ThreadManager" where
  "execute_task tid p =
     (case execute_task_enter tid p of
        Inl e \<Rightarrow> (Inl e, p)
      | Inr p1 \<Rightarrow> execute_task_call tid p1)"

text \<open>
  \<^verbatim>\<open>_handle_task_completion\<close>, given what \<^verbatim>\<open>future.result()\<close> returns or raises. Its
  handler is \<^verbatim>\<open>except Exception\<close> too: an exception of the task that is not an instance
  of \<^verbatim>\<open>Exception\<close> leaves the callback with the record as it is.
\<close>

definition handle_task_completion :: "int \<Rightarrow> exn + pyval \<Rightarrow> ThreadManager \<Rightarrow> exn + ThreadManager" where
  "handle_task_completion tid fut p =
     (case map_of (threads p) tid of
        None \<Rightarrow> Inl (KeyError tid)
      | Some info \<Rightarrow>
          (case fut of
             Inr v \<Rightarrow> Inr (p\<lparr>threads := AList.update tid (info\<lparr>result := v, state := TERMINATED\<rparr>)
                                            (threads p)\<rparr>)
           | Inl e \<Rightarrow>
               if is_Exception e
               then Inr (p\<lparr>threads := AList.update tid (info\<lparr>error := Some e, state := ERROR\<rparr>)
                                       (threads p)\<rparr>)
               else Inl e))"

definition get_thread_info :: "int \<Rightarrow> ThreadManager \<Rightarrow> ThreadInfo option" where
  "get_thread_info tid p = map_of (threads p) tid"

definition get_active_threads :: "ThreadManager \<Rightarrow> ThreadInfo list" where
  "get_active_threads p = filter (\<lambda>info. state info = RUNNING) (map snd (threads p))"

text \<open>
  The steps of the executor's workers on the work item of a thread id. Each applies only
  to an item in the right stage and leaves the manager alone otherwise. An exception of
  \<^verbatim>\<open>_execute_task\<close> ends up in the future, whatever its class; an exception of the
  callback is logged by the standard library and dropped when it is an instance of
  \<^verbatim>\<open>Exception\<close>, and ends the worker thread otherwise.
\<close>

definition worker_begin :: "int \<Rightarrow> ThreadManager \<Rightarrow> ThreadManager" where
  "worker_begin tid p =
     (case map_of (futures p) tid of
        Some Queued \<Rightarrow>
          (case execute_task_enter tid p of
             Inr p1 \<Rightarrow> p1\<lparr>futures := AList.update tid Started (futures p1)\<rparr>
           | Inl e \<Rightarrow> p\<lparr>futures := AList.update tid (Done (Inl e)) (futures p)\<rparr>)
      | _ \<Rightarrow> p)"

definition worker_end :: "int \<Rightarrow> ThreadManager \<Rightarrow> ThreadManager" where
  "worker_end tid p =
     (case map_of (futures p) tid of
        Some Started \<Rightarrow>
          (case execute_task_call tid p of
             (r, p1) \<Rightarrow> p1\<lparr>futures := AList.update tid (Done r) (futures p1)\<rparr>)
      | _ \<Rightarrow> p)"

definition worker_callback :: "int \<Rightarrow> ThreadManager \<Rightarrow> ThreadManager" where
  "worker_callback tid p =
     (case map_of (futures p) tid of
        Some (Done r) \<Rightarrow>
          (case handle_task_completion tid r p of
             Inr p1 \<Rightarrow> p1\<lparr>futures := AList.update tid Notified (futures p1)\<rparr>
           | Inl e \<Rightarrow>
               if is_Exception e
               then p\<lparr>futures := AList.update tid Notified (futures p)\<rparr>
               else p\<lparr>futures := AList.update tid Notified (futures p),
                      workers_lost := Suc (workers_lost p)\<rparr>)
      | _ \<Rightarrow> p)"

text \<open>
  \<^verbatim>\<open>shutdown\<close>: clears \<^verbatim>\<open>_running\<close> and shuts the executor down. With \<^verbatim>\<open>wait=True\<close>
  the executor joins its workers, so every accepted work item has run and its callback
  has been called when \<^verbatim>\<open>shutdown\<close> returns.
\<close>

definition complete_future :: "int \<Rightarrow> ThreadManager \<Rightarrow> ThreadManager" where
  "complete_future tid p = worker_callback tid (worker_end tid (worker_begin tid p))"

definition shutdown :: "bool \<Rightarrow> ThreadManager \<Rightarrow> ThreadManager" where
  "shutdown wait p =
     (let p1 = p\<lparr>running := False, executor_shutdown := True\<rparr> in
      if wait then fold complete_future (map fst (futures p1)) p1 else p1)"

text \<open>
  A history of the manager: calls of its methods by the threads that own it and steps of
  the workers, in the order in which they take effect. \<open>run_calls\<close> collects what the
  \<^verbatim>\<open>submit_task\<close> calls returned or raised, in call order.
\<close>

datatype pool_call =
    Submit callable "pyval list" "(string \<times> pyval) list"
  | Shutdown bool
  | Begin int
  | End int
  | Callback int

fun pool_step :: "pool_call \<Rightarrow> ThreadManager \<Rightarrow> (exn + int) list \<times> ThreadManager" where
  "pool_step (Submit tsk a kw) p = (case submit_task tsk a kw p of (r, p1) \<Rightarrow> ([r], p1))"
| "pool_step (Shutdown wait) p = ([], shutdown wait p)"
| "pool_step (Begin tid) p = ([], worker_begin tid p)"
| "pool_step (End tid) p = ([], worker_end tid p)"
| "pool_step (Callback tid) p = ([], worker_callback tid p)"

fun run_calls :: "pool_call list \<Rightarrow> ThreadManager \<Rightarrow> (exn + int) list \<times> ThreadManager" where
  "run_calls [] p = ([], p)"
| "run_calls (c # cs) p =
     (case pool_step c p of (rs, p1) \<Rightarrow>
        (case run_calls cs p1 of (qs, p2) \<Rightarrow> (rs @ qs, p2)))"

text \<open>
  The loop of \<^verbatim>\<open>wait_for_thread\<close>: the state of the record is read first; while it is
  \<^verbatim>\<open>RUNNING\<close> the clock is read and the caller sleeps, during which the other threads
  go on.
\<close>

fun wait_loop :: "int \<Rightarrow> real option \<Rightarrow> real \<Rightarrow> pool_call tick list \<Rightarrow> ThreadManager
                  \<Rightarrow> (exn + bool outcome) \<times> ThreadManager" where
  "wait_loop tid timeout start_time [] p =
     (case map_of (threads p) tid of
        None \<Rightarrow> (Inl (KeyError tid), p)
      | Some info \<Rightarrow>
          if state info = RUNNING then (Inr Blocked, p) else (Inr (Returned True), p))"
| "wait_loop tid timeout start_time ((now, others) # ticks) p =
     (case map_of (threads p) tid of
        None \<Rightarrow> (Inl (KeyError tid), p)
      | Some info \<Rightarrow>
          if state info = RUNNING
          then (if expired timeout start_time now then (Inr (Returned False), p)
                else wait_loop tid timeout start_time ticks (snd (run_calls others p)))
          else (Inr (Returned True), p))"

definition wait_for_thread :: "int \<Rightarrow> real option \<Rightarrow> real \<Rightarrow> pool_call tick list \<Rightarrow> ThreadManager
                  \<Rightarrow> (exn + bool outcome) \<times> ThreadManager" where
  "wait_for_thread tid timeout start_time ticks p =
     (if map_of (threads p) tid = None
      then (Inl (ValueError (''Thread '' @ str_int tid @ '' not found'')), p)
      else wait_loop tid timeout start_time ticks p)"



section \<open>The registry invariant\<close>

text \<open>
  What a record looks like at each stage of its work item: untouched while the item is
  queued (or was never accepted), \<open>RUNNING\<close> from the start of \<open>_execute_task\<close> until the
  callback, except that a task raising an instance of \<^verbatim>\<open>Exception\<close> has already been
  marked \<open>ERROR\<close> by \<open>_execute_task\<close>; after the callback \<open>TERMINATED\<close> with the value the
  task returned, or \<open>ERROR\<close> with the instance of \<^verbatim>\<open>Exception\<close> it raised, or still
  \<open>RUNNING\<close> when it raised something else. The invariant of the manager: every record is as
  its stage says, every id in the registry is below the size of the registry, and the
  executor holds work items only for registered ids.
\<close>

fun record_ok :: "future option \<Rightarrow> ThreadInfo \<Rightarrow> bool" where
  "record_ok None info = (state info = IDLE \<and> result info = PyNone \<and> error info = None)"
| "record_ok (Some Queued) info = (state info = IDLE \<and> result info = PyNone \<and> error info = None)"
| "record_ok (Some Started) info = (state info = RUNNING \<and> result info = PyNone \<and> error info = None)"
| "record_ok (Some (Done (Inr v))) info =
     (state info = RUNNING \<and> result info = PyNone \<and> error info = None \<and> call_task info = Inr v)"
| "record_ok (Some (Done (Inl e))) info =
     (result info = PyNone \<and> call_task info = Inl e
      \<and> (if is_Exception e then state info = ERROR \<and> error info = Some e
          else state info = RUNNING \<and> error info = None))"
| "record_ok (Some Notified) info =
     (if state info = TERMINATED then error info = None \<and> call_task info = Inr (result info)
      else result info = PyNone
           \<and> (case error info of
                 None \<Rightarrow> state info = RUNNING
                          \<and> (case call_task info of Inl e \<Rightarrow> \<not> is_Exception e | Inr v \<Rightarrow> False)
               | Some e \<Rightarrow> state info = ERROR \<and> call_task info = Inl e \<and> is_Exception e))"

definition pool_inv :: "ThreadManager \<Rightarrow> bool" where
  "pool_inv p =
     ((\<forall>k info. map_of (threads p) k = Some info \<longrightarrow>
          record_ok (map_of (futures p) k) info \<and> k < int (length (threads p)))
      \<and> (\<forall>k f. map_of (futures p) k = Some f \<longrightarrow> map_of (threads p) k \<noteq> None))"

section \<open>Properties of the synchronisation primitives\<close>

lemma ThreadBarrier_wait_event_set:
  "b_event b \<Longrightarrow> fst (ThreadBarrier_wait timeout waited b) = Returned True
     \<and> b_event (snd (ThreadBarrier_wait timeout waited b))"
  by (cases timeout) (simp_all add: ThreadBarrier_wait_def Let_def)

lemma ThreadBarrier_waits_first_round:
  "\<not> b_event b \<Longrightarrow> int (length ts) < b_count b \<Longrightarrow>
   ThreadBarrier_waits ts b
     = (map (\<lambda>(t, w). Event_wait False t w) ts, b\<lparr>b_count := b_count b - int (length ts)\<rparr>)"
proof (induction ts arbitrary: b)
  case Nil
  then show ?case by simp
next
  case (Cons tw ts)
  obtain t w where tw: "tw = (t, w)" by (cases tw)
  let ?b1 = "b\<lparr>b_count := b_count b - 1\<rparr>"
  from Cons.prems have w: "ThreadBarrier_wait t w b = (Event_wait False t w, ?b1)"
    by (simp add: ThreadBarrier_wait_def Let_def)
  from Cons.prems have "\<not> b_event ?b1" "int (length ts) < b_count ?b1" by simp_all
  from Cons.IH[OF this] w show ?case by (simp add: tw)
qed

lemma ThreadBarrier_wait_last_arrival:
  "b_count b = 1 \<Longrightarrow>
   ThreadBarrier_wait t w b = (Returned True, b\<lparr>b_count := b_parties b, b_event := True\<rparr>)"
  by (simp add: ThreadBarrier_wait_def Let_def)

text \<open>
  Claim C1. A barrier for \<open>P\<close> parties completes a round with exactly \<open>P\<close> arrivals and
  is then to behave in a second round as in the first: an arrival that is not the \<open>P\<close>-th
  waits. The first round does so (\<open>ThreadBarrier_waits_first_round\<close>,
  \<open>ThreadBarrier_wait_last_arrival\<close>), but the event set by the last arrival of round one is
  never cleared, so in round two nobody waits (\<open>ThreadBarrier_wait_event_set\<close>). With two
  parties: the first arrival waits, the second completes the round, and the third call,
  the first arrival of round two, returns \<open>True\<close> at once, under any timeout, while the
  count says that one party is still missing.
\<close>

theorem barrier_second_round_does_not_block:
  "ThreadBarrier_waits [(None, w1), (None, w2), (timeout, w3)] (ThreadBarrier_init 2)
     = ([Blocked, Returned True, Returned True],
        \<lparr>b_parties = 2, b_count = 1, b_event = True\<rparr>)"
  by (cases timeout) (simp_all add: ThreadBarrier_wait_def ThreadBarrier_init_def Let_def)

lemma count_down_funpow:
  "(count_down ^^ n) (ThreadCountDownLatch_init K)
     = (if K \<le> 0 then ThreadCountDownLatch_init K
        else \<lparr>l_count = max 0 (K - int n), l_event = (K \<le> int n)\<rparr>)"
proof (induction n)
  case 0
  then show ?case by (simp add: ThreadCountDownLatch_init_def)
next
  case (Suc n)
  then show ?case
    by (auto simp add: count_down_def ThreadCountDownLatch_init_def Let_def max_def)
qed

text \<open>
  Claim C2. A latch built with count \<open>K\<close> is to be signaled after exactly \<open>K\<close> calls of
  \<open>count_down\<close>, for every \<open>K \<ge> 0\<close>. For \<open>K > 0\<close> it is (\<open>latch_positive_count\<close>). The
  event is set only inside \<open>count_down\<close>, on the step from one to zero, so a latch built
  with count 0 is not signaled after 0 calls, nor after any number of calls: a caller of
  \<open>wait_for_zero\<close> without timeout stays suspended, with a zero timeout it gets \<open>False\<close>,
  and with any other timeout it is suspended until it gets \<open>False\<close>.
\<close>

theorem latch_zero_never_signaled:
  "wait_for_zero None waited ((count_down ^^ n) (ThreadCountDownLatch_init 0)) = Blocked
   \<and> wait_for_zero (Some 0) waited ((count_down ^^ n) (ThreadCountDownLatch_init 0))
       = Returned False
   \<and> wait_for_zero (Some t) waited ((count_down ^^ n) (ThreadCountDownLatch_init 0))
       = (if t \<le> max 0 waited then Returned False else Blocked)"
  unfolding wait_for_zero_def count_down_funpow
  by (simp add: ThreadCountDownLatch_init_def)

lemma latch_positive_count:
  "0 < K \<Longrightarrow> wait_for_zero timeout waited ((count_down ^^ n) (ThreadCountDownLatch_init K))
     = Event_wait (K \<le> int n) timeout waited"
  by (simp add: count_down_funpow wait_for_zero_def)

lemma take_permit_nonneg: "0 \<le> s_value s \<Longrightarrow> 0 \<le> s_value (snd (take_permit s))"
  by (simp add: take_permit_def)

lemma sem_apply_nonneg: "0 \<le> s_value s \<Longrightarrow> 0 \<le> s_value (sem_apply x s)"
  by (cases x) (simp_all add: take_permit_def release_def)

lemma fold_sem_apply_nonneg: "0 \<le> s_value s \<Longrightarrow> 0 \<le> s_value (fold sem_apply xs s)"
  by (induction xs arbitrary: s) (simp_all add: sem_apply_nonneg)

lemma acquire_loop_nonneg:
  "0 \<le> s_value s \<Longrightarrow> 0 \<le> s_value (snd (acquire_loop timeout st ticks s))"
proof (induction ticks arbitrary: s)
  case Nil
  then show ?case by simp
next
  case (Cons tk ticks)
  obtain now others where tk: "tk = (now, others)" by (cases tk)
  have f: "0 \<le> s_value (fold sem_apply others s)"
    using Cons.prems by (rule fold_sem_apply_nonneg)
  show ?case
  proof (cases "s_value (fold sem_apply others s) > 0")
    case True
    then show ?thesis using f by (simp add: tk take_permit_def Let_def)
  next
    case False
    then show ?thesis using f Cons.IH[OF f] by (simp add: tk take_permit_def Let_def)
  qed
qed

lemma acquire_internal_nonneg:
  "0 \<le> s_value s \<Longrightarrow> 0 \<le> s_value (snd (acquire_internal timeout st ticks s))"
  using acquire_loop_nonneg[of s timeout st ticks]
  by (simp add: acquire_internal_def take_permit_def)

lemma sem_call_apply_nonneg: "0 \<le> s_value s \<Longrightarrow> 0 \<le> s_value (sem_call_apply c s)"
  by (cases c) (simp_all add: acquire_internal_nonneg release_def)

lemma fold_sem_call_apply_nonneg:
  "0 \<le> s_value s \<Longrightarrow> 0 \<le> s_value (fold sem_call_apply cs s)"
  by (induction cs arbitrary: s) (simp_all add: sem_call_apply_nonneg)

text \<open>
  Claim C7. Starting from a semaphore built with a value \<open>V \<ge> 0\<close>, the permit counter is
  never negative after any sequence of \<open>_acquire\<close> calls (under any timeout, clock and
  interference of other threads) and \<open>release\<close> calls; the locked block of \<open>_acquire\<close>
  decrements only a positive counter and \<open>release\<close> adds one.
\<close>

theorem semaphore_permits_nonneg:
  "0 \<le> V \<Longrightarrow>
     0 \<le> s_value (fold sem_call_apply calls (ThreadSemaphore_init V))
   \<and> s_value (snd (take_permit s)) = (if 0 < s_value s then s_value s - 1 else s_value s)
   \<and> s_value (release s) = s_value s + 1"
  using fold_sem_call_apply_nonneg[of "ThreadSemaphore_init V" calls]
  by (simp add: ThreadSemaphore_init_def take_permit_def release_def)

theorem semaphore_permits_nonneg_witness:
  "(0::int) \<le> 1
   \<and> 0 \<le> s_value (fold sem_call_apply
        [Acquire None 0 [], Acquire (Some 1) 0 [(0.5, []), (2, [])], Release, Acquire None 0 []]
        (ThreadSemaphore_init 1))
   \<and> s_value (fold sem_call_apply
        [Acquire None 0 [], Acquire (Some 1) 0 [(0.5, []), (2, [])], Release, Acquire None 0 []]
        (ThreadSemaphore_init 1)) = 0"
  using semaphore_permits_nonneg[of 1
        "[Acquire None 0 [], Acquire (Some 1) 0 [(0.5, []), (2, [])], Release, Acquire None 0 []]"]
  by (simp add: ThreadSemaphore_init_def acquire_internal_def take_permit_def release_def)



lemma fold_sem_apply_no_release:
  "s_value s \<le> 0 \<Longrightarrow> OtherRelease \<notin> set others \<Longrightarrow> fold sem_apply others s = s"
proof (induction others)
  case Nil
  then show ?case by simp
next
  case (Cons x xs)
  then have "x = OtherTake" by (cases x) simp_all
  with Cons show ?case by (simp add: take_permit_def)
qed

lemma acquire_loop_quiet:
  "s_value s \<le> 0 \<Longrightarrow> quiet ticks \<Longrightarrow>
   acquire_loop timeout st ticks s
     = (if list_ex (\<lambda>tk. expired timeout st (fst tk)) ticks then Returned False else Blocked, s)"
proof (induction ticks)
  case Nil
  then show ?case by simp
next
  case (Cons tk ticks)
  obtain now others where tk: "tk = (now, others)" by (cases tk)
  from Cons.prems have q: "OtherRelease \<notin> set others" "quiet ticks"
    by (simp_all add: quiet_def tk)
  have f: "fold sem_apply others s = s"
    using Cons.prems(1) q(1) by (rule fold_sem_apply_no_release)
  show ?case
    using Cons.IH[OF Cons.prems(1) q(2)] Cons.prems(1)
    by (simp add: tk f take_permit_def)
qed





lemma acquire_loop_timeout_zero:
  "acquire_loop (Some 0) st ticks s = acquire_loop None st ticks s"
  by (induction ticks arbitrary: s) (auto split: prod.splits bool.splits)

lemma acquire_loop_none_not_false:
  "fst (acquire_loop None st ticks s) \<noteq> Returned False"
  by (induction ticks arbitrary: s) (auto split: prod.splits bool.splits simp: Let_def)

section \<open>Properties of the thread manager\<close>

lemma submit_task_after_shutdown:
  "executor_shutdown p \<Longrightarrow>
     fst (submit_task tsk a kw p) = Inl (RuntimeError ''cannot schedule new futures after shutdown'')
   \<and> get_thread_info (int (length (threads p))) (snd (submit_task tsk a kw p))
       = Some \<lparr>thread_id = int (length (threads p)), state = IDLE, task = Some tsk, args = a,
                kwargs = kw, result = PyNone, error = None\<rparr>"
  by (simp add: submit_task_def Let_def get_thread_info_def update_conv')

text \<open>
  Claim C3. After \<open>shutdown\<close> a call of \<open>submit_task\<close> is to fail and to leave the registry as
  it was. It does fail, with the executor's \<open>RuntimeError\<close>, but only after the new record
  has been stored (\<open>submit_task_after_shutdown\<close>): on a fresh manager that has been shut
  down, the registry is empty before the rejected call and holds an \<open>IDLE\<close> record under
  id 0 after it.
\<close>

theorem submit_after_shutdown_registers_record:
  "fst (submit_task (\<lambda>a kw. Inr PyNone) [] [] (shutdown True ThreadManager_init))
     = Inl (RuntimeError ''cannot schedule new futures after shutdown'')
   \<and> threads (shutdown True ThreadManager_init) = []
   \<and> map (\<lambda>(k, info). (k, thread_id info, state info))
        (threads (snd (submit_task (\<lambda>a kw. Inr PyNone) [] [] (shutdown True ThreadManager_init))))
     = [(0, 0, IDLE)]"
  by (simp add: submit_task_def shutdown_def ThreadManager_init_def Let_def)

lemma str_int_examples:
  "str_int 0 = ''0''" "str_int 42 = ''42''" "str_int (- 7) = ''-7''"
  by (simp_all add: str_int_def str_nat.simps)

lemma unknown_id_not_found:
  "map_of (threads p) tid = None \<Longrightarrow>
     get_thread_info tid p = None
   \<and> wait_for_thread tid timeout st ticks p
       = (Inl (ValueError (''Thread '' @ str_int tid @ '' not found'')), p)"
  by (simp add: get_thread_info_def wait_for_thread_def)

text \<open>
  Claim C9. For an id that no \<open>submit_task\<close> call has returned, \<open>get_thread_info\<close> is to
  return \<open>None\<close> and \<open>wait_for_thread\<close> is to raise. Both do so for an id that is not in the
  registry (\<open>unknown_id_not_found\<close>). But a call of \<open>submit_task\<close> rejected after shutdown
  has stored a record under an id that it never returned: for that id
  \<open>get_thread_info\<close> finds the record and \<open>wait_for_thread\<close> returns \<open>True\<close>.
\<close>

theorem unreturned_id_found_after_rejected_submit:
  "fst (run_calls [Shutdown True, Submit (\<lambda>a kw. Inr PyNone) [] []] ThreadManager_init)
     = [Inl (RuntimeError ''cannot schedule new futures after shutdown'')]
   \<and> map_option state
        (get_thread_info 0
           (snd (run_calls [Shutdown True, Submit (\<lambda>a kw. Inr PyNone) [] []] ThreadManager_init)))
     = Some IDLE
   \<and> fst (wait_for_thread 0 None 0 []
           (snd (run_calls [Shutdown True, Submit (\<lambda>a kw. Inr PyNone) [] []] ThreadManager_init)))
     = Inr (Returned True)"
  by (simp add: submit_task_def shutdown_def ThreadManager_init_def Let_def get_thread_info_def
        wait_for_thread_def)

lemma wait_loop_timeout_zero:
  "wait_loop tid (Some 0) st ticks p = wait_loop tid None st ticks p"
  by (induction ticks arbitrary: p) (auto split: option.splits)

lemma wait_loop_none_not_false:
  "fst (wait_loop tid None st ticks p) \<noteq> Inr (Returned False)"
  by (induction ticks arbitrary: p) (auto split: option.splits if_splits)

lemma wait_loop_idle_ticks:
  "map_of (threads p) tid = Some info \<Longrightarrow> state info = RUNNING \<Longrightarrow>
   list_all (\<lambda>tk. snd tk = []) ticks \<Longrightarrow>
   wait_loop tid None st ticks p = (Inr Blocked, p)"
  by (induction ticks) auto

text \<open>
  Claim C10. In \<open>_acquire\<close> and in \<open>wait_for_thread\<close> a timeout of 0 is no timeout: the call
  behaves as with \<open>None\<close>, never returns \<open>False\<close>, and stays in its loop for as long as it
  is observed when no permit is released, respectively while the record stays \<open>RUNNING\<close>.
\<close>

theorem timeout_zero_means_no_timeout:
  "acquire_internal (Some 0) st ticks s = acquire_internal None st ticks s
   \<and> wait_for_thread tid (Some 0) st pticks p = wait_for_thread tid None st pticks p
   \<and> fst (acquire_internal (Some 0) st ticks s) \<noteq> Returned False
   \<and> fst (wait_for_thread tid (Some 0) st pticks p) \<noteq> Inr (Returned False)
   \<and> (s_value s \<le> 0 \<and> quiet ticks \<longrightarrow> fst (acquire_internal (Some 0) st ticks s) = Blocked)
   \<and> (map_option state (get_thread_info tid p) = Some RUNNING \<and> list_all (\<lambda>tk. snd tk = []) pticks
        \<longrightarrow> fst (wait_for_thread tid (Some 0) st pticks p) = Inr Blocked)"
proof -
  have a: "acquire_internal (Some 0) st ticks s = acquire_internal None st ticks s"
    by (simp add: acquire_internal_def acquire_loop_timeout_zero split: prod.splits bool.splits)
  have w: "wait_for_thread tid (Some 0) st pticks p = wait_for_thread tid None st pticks p"
    by (simp add: wait_for_thread_def wait_loop_timeout_zero)
  have a': "fst (acquire_internal None st ticks s) \<noteq> Returned False"
    using acquire_loop_none_not_false[of st ticks s]
    by (simp add: acquire_internal_def take_permit_def)
  have w': "fst (wait_for_thread tid None st pticks p) \<noteq> Inr (Returned False)"
    using wait_loop_none_not_false[of tid st pticks p]
    by (simp add: wait_for_thread_def)
  have ab: "s_value s \<le> 0 \<and> quiet ticks \<longrightarrow> fst (acquire_internal None st ticks s) = Blocked"
    by (simp add: acquire_internal_def take_permit_def acquire_loop_quiet list_ex_iff)
  have wb: "map_option state (get_thread_info tid p) = Some RUNNING \<and> list_all (\<lambda>tk. snd tk = []) pticks
        \<longrightarrow> fst (wait_for_thread tid None st pticks p) = Inr Blocked"
    by (auto simp add: wait_for_thread_def get_thread_info_def wait_loop_idle_ticks)
  from a w a' w' ab wb show ?thesis by simp
qed

theorem timeout_zero_means_no_timeout_witness:
  "s_value (ThreadSemaphore_init 0) \<le> 0 \<and> quiet [(1, []), (2, [OtherTake]), (1000, [])]
   \<and> fst (acquire_internal (Some 0) 0 [(1, []), (2, [OtherTake]), (1000, [])] (ThreadSemaphore_init 0))
       = Blocked
   \<and> map_option state (get_thread_info 0
        (snd (run_calls [Submit (\<lambda>a kw. Inr PyNone) [] [], Begin 0] ThreadManager_init)))
       = Some RUNNING
   \<and> list_all (\<lambda>tk. snd tk = []) [(1, []), (1000, [])]
   \<and> fst (wait_for_thread 0 (Some 0) 0 [(1, []), (1000, [])]
        (snd (run_calls [Submit (\<lambda>a kw. Inr PyNone) [] [], Begin 0] ThreadManager_init)))
       = Inr Blocked
   \<and> fst (wait_for_thread 0 (Some 0.5) 0 [(1, []), (1000, [])]
        (snd (run_calls [Submit (\<lambda>a kw. Inr PyNone) [] [], Begin 0] ThreadManager_init)))
       = Inr (Returned False)"
  using timeout_zero_means_no_timeout[of 0 "[(1, []), (2, [OtherTake]), (1000, [])]"
       "ThreadSemaphore_init 0" 0 "[(1, []), (1000, [])]"
       "snd (run_calls [Submit (\<lambda>a kw. Inr PyNone) [] [], Begin 0] ThreadManager_init)"]
  by (simp add: quiet_def ThreadSemaphore_init_def submit_task_def ThreadManager_init_def Let_def
       worker_begin_def execute_task_enter_def get_thread_info_def wait_for_thread_def
       acquire_internal_def take_permit_def)

lemma call_task_update [simp]:
  "call_task (info\<lparr>state := s\<rparr>) = call_task info"
  "call_task (info\<lparr>error := e\<rparr>) = call_task info"
  "call_task (info\<lparr>result := r\<rparr>) = call_task info"
  by (simp_all add: call_task_def split: option.splits)

lemma length_update_present:
  "map_of al k = Some v \<Longrightarrow> length (AList.update k v' al) = length al"
  by (induction al) (auto split: if_splits)

lemma length_update_absent:
  "map_of al k = None \<Longrightarrow> length (AList.update k v' al) = Suc (length al)"
  by (induction al) (auto split: if_splits)

lemma pool_inv_init: "pool_inv ThreadManager_init"
  by (simp add: pool_inv_def ThreadManager_init_def)

lemma pool_inv_at:
  "pool_inv p \<Longrightarrow> map_of (threads p) k = Some info \<Longrightarrow> record_ok (map_of (futures p) k) info"
  by (simp add: pool_inv_def)

lemma pool_inv_update:
  assumes "pool_inv p" and "map_of (threads p) tid = Some info" and "record_ok (Some f) info'"
  shows "pool_inv (p\<lparr>threads := AList.update tid info' (threads p),
                      futures := AList.update tid f (futures p)\<rparr>)"
  using assms by (auto simp: pool_inv_def update_conv' length_update_present)

lemma pool_inv_update_future:
  assumes "pool_inv p" and "map_of (threads p) tid = Some info" and "record_ok (Some f) info"
  shows "pool_inv (p\<lparr>futures := AList.update tid f (futures p)\<rparr>)"
  using assms by (auto simp: pool_inv_def update_conv')

lemma pool_inv_worker_begin:
  assumes inv: "pool_inv p"
  shows "pool_inv (worker_begin tid p)"
proof (cases "map_of (futures p) tid = Some Queued")
  case False
  then have "worker_begin tid p = p"
    by (auto simp: worker_begin_def split: option.splits future.splits)
  then show ?thesis using inv by simp
next
  case True
  then obtain info where i: "map_of (threads p) tid = Some info"
    using inv by (auto simp: pool_inv_def)
  from pool_inv_at[OF inv i] True have "record_ok (Some Started) (info\<lparr>state := RUNNING\<rparr>)"
    by simp
  from pool_inv_update[OF inv i this] True i show ?thesis
    by (simp add: worker_begin_def execute_task_enter_def)
qed

lemma pool_inv_worker_end:
  assumes inv: "pool_inv p"
  shows "pool_inv (worker_end tid p)"
proof (cases "map_of (futures p) tid = Some Started")
  case False
  then have "worker_end tid p = p"
    by (auto simp: worker_end_def split: option.splits future.splits)
  then show ?thesis using inv by simp
next
  case True
  then obtain info where i: "map_of (threads p) tid = Some info"
    using inv by (auto simp: pool_inv_def)
  from pool_inv_at[OF inv i] True
  have ok: "state info = RUNNING" "result info = PyNone" "error info = None"
    by simp_all
  show ?thesis
  proof (cases "call_task info")
    case (Inl e)
    show ?thesis
    proof (cases "is_Exception e")
      case True
      with ok Inl
      have "record_ok (Some (Done (Inl e))) (info\<lparr>error := Some e, state := ERROR\<rparr>)"
        by simp
      from pool_inv_update[OF inv i this] \<open>map_of (futures p) tid = Some Started\<close> i Inl True
      show ?thesis
        by (simp add: worker_end_def execute_task_call_def)
    next
      case False
      with ok Inl have "record_ok (Some (Done (Inl e))) info"
        by simp
      from pool_inv_update_future[OF inv i this] \<open>map_of (futures p) tid = Some Started\<close> i Inl
        False
      show ?thesis
        by (simp add: worker_end_def execute_task_call_def)
    qed
  next
    case (Inr v)
    with ok have "record_ok (Some (Done (Inr v))) info"
      by simp
    from pool_inv_update_future[OF inv i this] True i Inr show ?thesis
      by (simp add: worker_end_def execute_task_call_def)
  qed
qed

lemma pool_inv_worker_callback:
  assumes inv: "pool_inv p"
  shows "pool_inv (worker_callback tid p)"
proof (cases "map_of (futures p) tid")
  case None
  then have "worker_callback tid p = p"
    by (simp add: worker_callback_def)
  then show ?thesis using inv by simp
next
  case (Some f)
  then obtain info where i: "map_of (threads p) tid = Some info"
    using inv by (auto simp: pool_inv_def)
  show ?thesis
  proof (cases f)
    case (Done r)
    show ?thesis
    proof (cases r)
      case (Inl e)
      show ?thesis
      proof (cases "is_Exception e")
        case True
        with pool_inv_at[OF inv i] Some Done Inl
        have "record_ok (Some Notified) (info\<lparr>error := Some e, state := ERROR\<rparr>)"
          by simp
        from pool_inv_update[OF inv i this] Some Done i Inl True show ?thesis
          by (simp add: worker_callback_def handle_task_completion_def)
      next
        case False
        with pool_inv_at[OF inv i] Some Done Inl
        have "record_ok (Some Notified) info"
          by simp
        from pool_inv_update_future[OF inv i this]
        have "pool_inv (p\<lparr>futures := AList.update tid Notified (futures p),
                           workers_lost := Suc (workers_lost p)\<rparr>)"
          by (simp add: pool_inv_def)
        with Some Done i Inl False show ?thesis
          by (simp add: worker_callback_def handle_task_completion_def)
      qed
    next
      case (Inr v)
      with pool_inv_at[OF inv i] Some Done
      have "record_ok (Some Notified) (info\<lparr>result := v, state := TERMINATED\<rparr>)"
        by simp
      from pool_inv_update[OF inv i this] Some Done i Inr show ?thesis
        by (simp add: worker_callback_def handle_task_completion_def)
    qed
  qed (use Some inv in \<open>simp_all add: worker_callback_def\<close>)
qed

lemma pool_inv_complete_future: "pool_inv p \<Longrightarrow> pool_inv (complete_future tid p)"
  by (simp add: complete_future_def pool_inv_worker_begin pool_inv_worker_end
        pool_inv_worker_callback)

lemma pool_inv_fold_complete_future:
  "pool_inv p \<Longrightarrow> pool_inv (fold complete_future ks p)"
  by (induction ks arbitrary: p) (simp_all add: pool_inv_complete_future)

lemma pool_inv_shutdown: "pool_inv p \<Longrightarrow> pool_inv (shutdown w p)"
proof -
  assume inv: "pool_inv p"
  then have "pool_inv (p\<lparr>running := False, executor_shutdown := True\<rparr>)"
    by (simp add: pool_inv_def)
  then show ?thesis
    by (simp add: shutdown_def Let_def pool_inv_fold_complete_future)
qed

lemma submit_task_fresh_key:
  "pool_inv p \<Longrightarrow> map_of (threads p) (int (length (threads p))) = None
                  \<and> map_of (futures p) (int (length (threads p))) = None"
  by (cases "map_of (threads p) (int (length (threads p)))";
      cases "map_of (futures p) (int (length (threads p)))") (auto simp: pool_inv_def)

lemma pool_inv_submit_task:
  assumes inv: "pool_inv p"
  shows "pool_inv (snd (submit_task tsk a kw p))"
proof -
  have bound: "k < 1 + int (length (threads p))" if "map_of (threads p) k = Some info" for k info
    using inv that by (fastforce simp: pool_inv_def)
  show ?thesis
    using inv submit_task_fresh_key[OF inv] bound
    by (auto simp: pool_inv_def submit_task_def Let_def update_conv' length_update_absent)
qed

lemma pool_inv_pool_step: "pool_inv p \<Longrightarrow> pool_inv (snd (pool_step c p))"
  by (cases c)
     (simp_all add: pool_inv_submit_task pool_inv_shutdown pool_inv_worker_begin
        pool_inv_worker_end pool_inv_worker_callback case_prod_beta)

lemma pool_inv_run_calls: "pool_inv p \<Longrightarrow> pool_inv (snd (run_calls cs p))"
proof (induction cs arbitrary: p)
  case Nil
  then show ?case by simp
next
  case (Cons c cs)
  from Cons.IH[OF pool_inv_pool_step[OF Cons.prems, of c]] show ?case
    by (cases "pool_step c p"; cases "run_calls cs (snd (pool_step c p))") simp
qed

text \<open>
  Claim C8. In every state the manager can reach from its construction, by any calls of
  \<open>submit_task\<close> and \<open>shutdown\<close> and any steps of the workers, a record in state
  \<open>TERMINATED\<close> holds as result the value its task returned and holds no error, and a
  record in state \<open>ERROR\<close> holds the exception its task raised and its result is still the
  default \<open>None\<close>.
\<close>

theorem result_error_exclusive:
  assumes "get_thread_info tid (snd (run_calls calls ThreadManager_init)) = Some info"
  shows "(state info = TERMINATED \<longrightarrow> call_task info = Inr (result info) \<and> error info = None)
       \<and> (state info = ERROR \<longrightarrow>
            result info = PyNone \<and> (\<exists>e. error info = Some e \<and> call_task info = Inl e))"
proof -
  let ?p = "snd (run_calls calls ThreadManager_init)"
  have "pool_inv ?p"
    by (rule pool_inv_run_calls[OF pool_inv_init])
  with assms have ok: "record_ok (map_of (futures ?p) tid) info"
    by (simp add: pool_inv_at get_thread_info_def)
  show ?thesis
  proof (cases "map_of (futures ?p) tid")
    case None
    with ok show ?thesis by simp
  next
    case (Some f)
    show ?thesis
    proof (cases f)
      case (Done r)
      with ok Some show ?thesis by (cases r) (auto split: if_splits)
    next
      case Notified
      with ok Some show ?thesis by (auto split: if_splits option.splits sum.splits)
    qed (use ok Some in simp_all)
  qed
qed








theorem result_error_exclusive_witness:
  "get_thread_info 0 (snd (run_calls
       [Submit (\<lambda>a kw. Inr (PyInt 7)) [] [], Submit (\<lambda>a kw. Inl (Exception ''boom'')) [] [],
        Begin 0, Begin 1, End 1, End 0, Callback 0, Callback 1] ThreadManager_init))
     = Some \<lparr>thread_id = 0, state = TERMINATED, task = Some (\<lambda>a kw. Inr (PyInt 7)), args = [],
             kwargs = [], result = PyInt 7, error = None\<rparr>
   \<and> call_task \<lparr>thread_id = 0, state = TERMINATED, task = Some (\<lambda>a kw. Inr (PyInt 7)), args = [],
             kwargs = [], result = PyInt 7, error = None\<rparr> = Inr (PyInt 7)
   \<and> get_thread_info 1 (snd (run_calls
       [Submit (\<lambda>a kw. Inr (PyInt 7)) [] [], Submit (\<lambda>a kw. Inl (Exception ''boom'')) [] [],
        Begin 0, Begin 1, End 1, End 0, Callback 0, Callback 1] ThreadManager_init))
     = Some \<lparr>thread_id = 1, state = ERROR, task = Some (\<lambda>a kw. Inl (Exception ''boom'')), args = [],
             kwargs = [], result = PyNone, error = Some (Exception ''boom'')\<rparr>
   \<and> call_task \<lparr>thread_id = 1, state = ERROR, task = Some (\<lambda>a kw. Inl (Exception ''boom'')), args = [],
             kwargs = [], result = PyNone, error = Some (Exception ''boom'')\<rparr>
     = Inl (Exception ''boom'')"
proof -
  let ?p = "snd (run_calls
       [Submit (\<lambda>a kw. Inr (PyInt 7)) [] [], Submit (\<lambda>a kw. Inl (Exception ''boom'')) [] [],
        Begin 0, Begin 1, End 1, End 0, Callback 0, Callback 1] ThreadManager_init)"
  have h0: "get_thread_info 0 ?p
     = Some \<lparr>thread_id = 0, state = TERMINATED, task = Some (\<lambda>a kw. Inr (PyInt 7)), args = [],
             kwargs = [], result = PyInt 7, error = None\<rparr>"
    by (simp add: submit_task_def ThreadManager_init_def Let_def worker_begin_def worker_end_def
        worker_callback_def execute_task_enter_def execute_task_call_def
        handle_task_completion_def call_task_def get_thread_info_def)
  have h1: "get_thread_info 1 ?p
     = Some \<lparr>thread_id = 1, state = ERROR, task = Some (\<lambda>a kw. Inl (Exception ''boom'')), args = [],
             kwargs = [], result = PyNone, error = Some (Exception ''boom'')\<rparr>"
    by (simp add: submit_task_def ThreadManager_init_def Let_def worker_begin_def worker_end_def
        worker_callback_def execute_task_enter_def execute_task_call_def
        handle_task_completion_def call_task_def get_thread_info_def)
  from result_error_exclusive[OF h0] result_error_exclusive[OF h1] h0 h1 show ?thesis
    by simp
qed

lemma wait_loop_not_running:
  "map_of (threads p) tid = Some info \<Longrightarrow> state info \<noteq> RUNNING \<Longrightarrow>
   wait_loop tid timeout st ticks p = (Inr (Returned True), p)"
  by (cases ticks) auto



lemma wait_for_thread_before_start:
  "map_of (threads p) tid = Some info \<Longrightarrow> state info = IDLE \<Longrightarrow>
   wait_for_thread tid timeout st ticks p = (Inr (Returned True), p)"
  by (simp add: wait_for_thread_def wait_loop_not_running)




end
